theory Spec2Isabelle
  imports
    Complex_Main
    "HOL-Library.Multiset"
    "HOL-Library.Char_ord"
    "HOL-Library.List_Lexorder"
begin


section \<open>Topological indices of molecular graphs: drug_indices/indices.py\<close>

text \<open>
  The module builds, for every drug name, an undirected \<^verbatim>\<open>networkx.Graph\<close> from the
  bond list of the molecule, sums ten degree-based contributions over the edges of that
  graph, rounds the sums to three decimals and collects one record per name.

  Modelling decisions.
  \<^item> Atom indices are Python integers: \<open>int\<close>. Degrees are \<^verbatim>\<open>len(nbrs) + (n in nbrs)\<close>,
    never negative: \<open>nat\<close>; the one subtraction on them (\<^verbatim>\<open>sum_deg - 2\<close>) is done in \<open>int\<close>.
  \<^item> A Python float is modelled by the real number it denotes. The functions
    \<open>edge_update\<close>, \<open>calculate_indices\<close> and \<open>calculate_and_return_all_drugs\<close> compute
    in exact real arithmetic; they serve the statements that do not depend on the values
    of the sums, and the concrete graphs evaluated below, where every intermediate value is
    a small dyadic rational (or the single square root of one) and the double operations
    are exact too. In general a sum of doubles differs from the exact sum in its last
    bits, and that can move the third decimal of the rounded value. The functions with the
    suffix \<open>_fp\<close> are the same code with the operations on doubles taken as parameters;
    what is proved of them holds for IEEE arithmetic as for any other.
  \<^item> \<^verbatim>\<open>nx.Graph\<close> is the simple undirected graph class of networkx. Its adjacency
    structure \<^verbatim>\<open>G._adj\<close> is a dict of dicts, both insertion ordered; it is modelled by an
    association list from a node to the list of its neighbours, in insertion order.
    The edge attribute dicts are always empty here and are left out.
  \<^item> An exception is a value \<open>Inl e\<close> of a sum type.
\<close>

subsection \<open>The graph: \<^verbatim>\<open>nx.Graph()\<close>, \<^verbatim>\<open>add_edges_from\<close>, \<^verbatim>\<open>degree\<close>, \<^verbatim>\<open>edges\<close>\<close>

datatype py_error = KeyError

type_synonym node = int

type_synonym edge_list = "(node \<times> node) list"

type_synonym graph = "(node \<times> node list) list"

text \<open>\<^verbatim>\<open>nx.Graph()\<close>: no nodes, no edges.\<close>

definition Graph :: graph where
  "Graph = []"

text \<open>
  \<^verbatim>\<open>if u not in self._node: self._adj[u] = {}; self._node[u] = {}\<close>:
  a new node goes to the end of the dict, a known one stays where it is.
\<close>

definition add_node_if_absent :: "node \<Rightarrow> graph \<Rightarrow> graph" where
  "add_node_if_absent u G = (if u \<in> set (map fst G) then G else G @ [(u, [])])"

text \<open>
  \<^verbatim>\<open>self._adj[u][v] = datadict\<close>: a new key \<open>v\<close> goes to the end of the inner dict of
  \<open>u\<close>, an existing key keeps its place (and the dict its size).
\<close>

definition set_nbr :: "node \<Rightarrow> node \<Rightarrow> graph \<Rightarrow> graph" where
  "set_nbr u v G =
     map (\<lambda>(n, nbrs). if n = u then (n, if v \<in> set nbrs then nbrs else nbrs @ [v])
                        else (n, nbrs)) G"

text \<open>
  One round of the loop of \<^verbatim>\<open>add_edges_from\<close> for a 2-tuple \<^verbatim>\<open>(u, v)\<close>: both nodes are
  added if absent, then \<^verbatim>\<open>_adj[u][v]\<close> and \<^verbatim>\<open>_adj[v][u]\<close> are set.
\<close>

fun add_edge :: "graph \<Rightarrow> node \<times> node \<Rightarrow> graph" where
  "add_edge G (u, v) =
     set_nbr v u (set_nbr u v (add_node_if_absent v (add_node_if_absent u G)))"

definition add_edges_from :: "graph \<Rightarrow> edge_list \<Rightarrow> graph" where
  "add_edges_from G ebunch = foldl add_edge G ebunch"

text \<open>
  \<^verbatim>\<open>G.degree[n]\<close>: \<^verbatim>\<open>nbrs = self._succ[n]; return len(nbrs) + (n in nbrs)\<close>.
  The lookup raises \<^verbatim>\<open>KeyError\<close> for a node that is not in the graph.
\<close>

definition degree :: "graph \<Rightarrow> node \<Rightarrow> py_error + nat" where
  "degree G n =
     (case map_of G n of
        None \<Rightarrow> Inl KeyError
      | Some nbrs \<Rightarrow> Inr (length nbrs + (if n \<in> set nbrs then 1 else 0)))"

text \<open>
  \<^verbatim>\<open>G.edges()\<close>: the iteration of the edge view,
  \<^verbatim>\<open>
  seen = {}
  for n, nbrs in self._nodes_nbrs():
      for nbr in list(nbrs):
          if nbr not in seen:
              yield (n, nbr)
      seen[n] = 1
  \<close>
\<close>

fun edges_seen :: "graph \<Rightarrow> node list \<Rightarrow> edge_list" where
  "edges_seen [] seen = []"
| "edges_seen ((n, nbrs) # G) seen =
     map (Pair n) (filter (\<lambda>nbr. nbr \<notin> set seen) nbrs) @ edges_seen G (n # seen)"

definition edges :: "graph \<Rightarrow> edge_list" where
  "edges G = edges_seen G []"

subsection \<open>\<^verbatim>\<open>calculate_indices\<close>\<close>

text \<open>
  The dict of the ten accumulators, in the order of the dict literal. \<^verbatim>\<open>indices[k] += v\<close>
  is only ever applied to one of the ten literal keys, which are all in the dict.
\<close>

type_synonym index_vector = "(string \<times> real) list"

definition initial_indices :: index_vector where
  "initial_indices =
     [(''M1'', 0), (''M2'', 0), (''mM2'', 0), (''FG'', 0), (''ISI'', 0),
      (''H'', 0), (''SC'', 0), (''HM'', 0), (''A'', 0), (''SDD'', 0)]"

definition add_to :: "string \<Rightarrow> real \<Rightarrow> index_vector \<Rightarrow> index_vector" where
  "add_to k v indices = map (\<lambda>(k', x). if k' = k then (k', x + v) else (k', x)) indices"

text \<open>
  The body of the loop, lines 52 to 64, for the degrees \<open>dx\<close> and \<open>dy\<close> of the two ends,
  in exact arithmetic (\<open>edge_update_fp\<close> below has the operations on doubles).
\<close>

definition edge_update :: "nat \<Rightarrow> nat \<Rightarrow> index_vector \<Rightarrow> index_vector" where
  "edge_update dx dy indices =
     (let sum_deg = dx + dy;
          indices = add_to ''M1'' (real sum_deg) indices;
          indices = add_to ''M2'' (real (dx * dy)) indices;
          indices = add_to ''mM2'' (if dx * dy \<noteq> 0 then 1 / real (dx * dy) else 0) indices;
          indices = add_to ''FG'' (real (dx ^ 2 + dy ^ 2)) indices;
          indices = add_to ''ISI'' (if sum_deg \<noteq> 0 then real (dx * dy) / real sum_deg else 0) indices;
          indices = add_to ''H'' (if sum_deg \<noteq> 0 then 2 / real sum_deg else 0) indices;
          indices = add_to ''SC'' (if sum_deg \<noteq> 0 then sqrt (1 / real sum_deg) else 0) indices;
          indices = add_to ''HM'' (real (sum_deg ^ 2)) indices;
          indices = (if sum_deg \<noteq> 2
                     then add_to ''A'' ((real (dx * dy) / real_of_int (int sum_deg - 2)) ^ 3) indices
                     else indices);
          indices = add_to ''SDD'' ((if dy \<noteq> 0 then real dx / real dy else 0)
                                   + (if dx \<noteq> 0 then real dy / real dx else 0)) indices
      in indices)"

text \<open>The loop \<^verbatim>\<open>for x, y in G.edges()\<close>; a failing degree lookup ends it.\<close>

fun calc_loop :: "graph \<Rightarrow> edge_list \<Rightarrow> index_vector \<Rightarrow> py_error + index_vector" where
  "calc_loop G [] indices = Inr indices"
| "calc_loop G ((x, y) # es) indices =
     (case degree G x of
        Inl e \<Rightarrow> Inl e
      | Inr dx \<Rightarrow>
          (case degree G y of
             Inl e \<Rightarrow> Inl e
           | Inr dy \<Rightarrow> calc_loop G es (edge_update dx dy indices)))"

definition calculate_indices :: "graph \<Rightarrow> py_error + index_vector" where
  "calculate_indices G = calc_loop G (edges G) initial_indices"

subsection \<open>\<^verbatim>\<open>calculate_and_return_all_drugs\<close>\<close>

text \<open>
  The built-in \<^verbatim>\<open>round(v, ndigits)\<close> on a float: the closest multiple of \<open>10\<close> to the power
  \<open>- ndigits\<close> of the value the float denotes, the even multiple when two are equally
  close.
\<close>

definition round_half_even :: "real \<Rightarrow> int" where
  "round_half_even x =
     (let f = \<lfloor>x\<rfloor>; r = x - of_int f
      in if r < 1 / 2 then f else if 1 / 2 < r then f + 1 else if even f then f else f + 1)"

definition py_round :: "real \<Rightarrow> nat \<Rightarrow> real" where
  "py_round v ndigits = of_int (round_half_even (v * 10 ^ ndigits)) / 10 ^ ndigits"

text \<open>
  A value of the loaded JSON document \<^verbatim>\<open>data\<close>: a list of atom pairs, or anything that
  is not a list (\<^verbatim>\<open>save_edge_relations_to_json\<close> writes the dict
  \<^verbatim>\<open>{"error": "edge relations not found"}\<close>). \<^verbatim>\<open>data.get(name)\<close> is \<^verbatim>\<open>None\<close> for a
  name that is not a key.
\<close>

type_synonym error_marker = "(string \<times> string) list"

datatype entry = EdgeList edge_list | Marker error_marker

text \<open>
  A result: \<^verbatim>\<open>{"drug": name, "indices": rounded}\<close> or \<^verbatim>\<open>{"drug": name, "error": edges}\<close>,
  where \<^verbatim>\<open>edges\<close> is what \<^verbatim>\<open>data.get(name)\<close> returned (\<open>None\<close> is Python's \<^verbatim>\<open>None\<close>).
\<close>

datatype molecule_record =
    Indices (drug: string) index_vector
  | Error (drug: string) "error_marker option"

fun drugs_loop ::
  "(string \<rightharpoonup> entry) \<Rightarrow> string list \<Rightarrow> molecule_record list \<Rightarrow> py_error + molecule_record list"
where
  "drugs_loop data [] results = Inr results"
| "drugs_loop data (name # names) results =
     (case data name of
        Some (EdgeList es) \<Rightarrow>
          (case calculate_indices (add_edges_from Graph es) of
             Inl e \<Rightarrow> Inl e
           | Inr raw \<Rightarrow>
               drugs_loop data names
                 (results @ [Indices name (map (\<lambda>(k, v). (k, py_round v 3)) raw)]))
      | Some (Marker m) \<Rightarrow> drugs_loop data names (results @ [Error name (Some m)])
      | None \<Rightarrow> drugs_loop data names (results @ [Error name None]))"

definition calculate_and_return_all_drugs ::
  "string list \<Rightarrow> (string \<rightharpoonup> entry) \<Rightarrow> py_error + molecule_record list" where
  "calculate_and_return_all_drugs drug_list data = drugs_loop data (sort drug_list) []"

subsection \<open>\<^verbatim>\<open>save_results_to_dataframe\<close>\<close>

text \<open>
  The data frame: one row per element of \<^verbatim>\<open>valid\<close>, its label \<^verbatim>\<open>r["drug"]\<close> and its
  cells the dict \<^verbatim>\<open>r["indices"]\<close>. Writing the spreadsheet is not modelled.
\<close>

fun has_indices :: "molecule_record \<Rightarrow> bool" where
  "has_indices (Indices name ind) = True"
| "has_indices (Error name err) = False"

fun row_of :: "molecule_record \<Rightarrow> (string \<times> index_vector) option" where
  "row_of (Indices name ind) = Some (name, ind)"
| "row_of (Error name err) = None"

definition save_results_to_dataframe :: "molecule_record list \<Rightarrow> (string \<times> index_vector) list" where
  "save_results_to_dataframe results =
     (let valid = filter has_indices results in List.map_filter row_of valid)"

subsection \<open>Vocabulary of the statements\<close>

text \<open>
  The nodes an edge list mentions, the neighbour set the adjacency structure stores for a
  node, and the invariant that ties a graph to the edge list it was built from: the keys
  are distinct and are the endpoints, no neighbour list repeats a node, and the neighbours
  of \<open>n\<close> are the nodes that share a pair with \<open>n\<close>, in either orientation.
\<close>

definition endpoints :: "edge_list \<Rightarrow> node set" where
  "endpoints es = fst ` set es \<union> snd ` set es"

definition nbrs_set :: "graph \<Rightarrow> node \<Rightarrow> node set" where
  "nbrs_set G n = (case map_of G n of None \<Rightarrow> {} | Some l \<Rightarrow> set l)"

definition lists_distinct :: "graph \<Rightarrow> bool" where
  "lists_distinct G \<longleftrightarrow> (\<forall>n l. map_of G n = Some l \<longrightarrow> distinct l)"

definition graph_inv :: "graph \<Rightarrow> edge_list \<Rightarrow> bool" where
  "graph_inv G es \<longleftrightarrow>
     distinct (map fst G) \<and> fst ` set G = endpoints es \<and> lists_distinct G \<and>
     (\<forall>n. nbrs_set G n = {m. (n, m) \<in> set es \<or> (m, n) \<in> set es})"

text \<open>
  The degree as section 4.1 of the specification words it: the number of edge endpoint
  occurrences touching the node, over all entries of the edge list. It is the degree of a
  multigraph, stated here to be compared with \<open>degree\<close>.
\<close>

definition endpoint_occurrences :: "edge_list \<Rightarrow> node \<Rightarrow> nat" where
  "endpoint_occurrences es n = count_list (map fst es) n + count_list (map snd es) n"

text \<open>
  What the loop of \<open>calculate_and_return_all_drugs\<close> appends for a name, as a relation
  between the name and the record; it is total, which is why the loop never fails.
\<close>

definition emitted :: "(string \<rightharpoonup> entry) \<Rightarrow> string \<Rightarrow> molecule_record \<Rightarrow> bool" where
  "emitted data name r =
     (case data name of
        Some (EdgeList es) \<Rightarrow>
          (\<exists>raw. calculate_indices (add_edges_from Graph es) = Inr raw
                 \<and> map fst raw = map fst initial_indices
                 \<and> r = Indices name (map (\<lambda>(k, v). (k, py_round v 3)) raw))
      | Some (Marker m) \<Rightarrow> r = Error name (Some m)
      | None \<Rightarrow> r = Error name None)"

text \<open>
  A small document for the examples: one marker as \<^verbatim>\<open>save_edge_relations_to_json\<close>
  writes it, one molecule with a single bond; every other name is missing.
\<close>

definition example_data :: "string \<rightharpoonup> entry" where
  "example_data =
     [''afatinib'' \<mapsto> Marker [(''error'', ''edge relations not found'')],
      ''zanubrutinib'' \<mapsto> EdgeList [(0, 1)]]"

subsection \<open>The same code over the arithmetic of doubles\<close>

text \<open>
  The operations on floats that lines 54 to 64 and line 86 use, on the reals the doubles
  denote: the conversion of an integer (\<^verbatim>\<open>float + int\<close>, \<^verbatim>\<open>1.0 / int\<close>), the sum and the
  quotient of two floats, the true division of two integers (\<^verbatim>\<open>int / int\<close>), \<^verbatim>\<open>math.sqrt\<close>,
  \<^verbatim>\<open>float ** int\<close>, and the conversion of a decimal to the nearest double with which the
  built-in \<^verbatim>\<open>round\<close> ends. The literals \<^verbatim>\<open>0.0\<close>, \<^verbatim>\<open>1.0\<close> and \<^verbatim>\<open>2.0\<close> are exact. An
  overflow of a conversion or of the power would need degrees beyond any list that fits
  in memory and is not modelled.
\<close>

record float_ops =
  of_int_f :: "int \<Rightarrow> real"
  add_f :: "real \<Rightarrow> real \<Rightarrow> real"
  div_f :: "real \<Rightarrow> real \<Rightarrow> real"
  int_div_f :: "int \<Rightarrow> int \<Rightarrow> real"
  sqrt_f :: "real \<Rightarrow> real"
  pow_f :: "real \<Rightarrow> nat \<Rightarrow> real"
  of_decimal_f :: "real \<Rightarrow> real"

text \<open>The arithmetic without rounding, which gives back the functions above.\<close>

definition exact_ops :: float_ops where
  "exact_ops =
     \<lparr>of_int_f = real_of_int, add_f = (+), div_f = (/),
      int_div_f = (\<lambda>a b. real_of_int a / real_of_int b),
      sqrt_f = sqrt, pow_f = (^), of_decimal_f = (\<lambda>x. x)\<rparr>"

text \<open>\<^verbatim>\<open>indices[k] += v\<close> and the body of the loop, with each operation as the code has it.\<close>

definition add_to_fp :: "float_ops \<Rightarrow> string \<Rightarrow> real \<Rightarrow> index_vector \<Rightarrow> index_vector" where
  "add_to_fp ops k v indices =
     map (\<lambda>(k', x). if k' = k then (k', add_f ops x v) else (k', x)) indices"

definition edge_update_fp :: "float_ops \<Rightarrow> nat \<Rightarrow> nat \<Rightarrow> index_vector \<Rightarrow> index_vector" where
  "edge_update_fp ops dx dy indices =
     (let sum_deg = dx + dy;
          indices = add_to_fp ops ''M1'' (of_int_f ops (int sum_deg)) indices;
          indices = add_to_fp ops ''M2'' (of_int_f ops (int (dx * dy))) indices;
          indices = add_to_fp ops ''mM2''
                      (if dx * dy \<noteq> 0 then div_f ops 1 (of_int_f ops (int (dx * dy))) else 0) indices;
          indices = add_to_fp ops ''FG'' (of_int_f ops (int (dx ^ 2 + dy ^ 2))) indices;
          indices = add_to_fp ops ''ISI''
                      (if sum_deg \<noteq> 0 then int_div_f ops (int (dx * dy)) (int sum_deg) else 0) indices;
          indices = add_to_fp ops ''H''
                      (if sum_deg \<noteq> 0 then div_f ops 2 (of_int_f ops (int sum_deg)) else 0) indices;
          indices = add_to_fp ops ''SC''
                      (if sum_deg \<noteq> 0 then sqrt_f ops (div_f ops 1 (of_int_f ops (int sum_deg))) else 0)
                      indices;
          indices = add_to_fp ops ''HM'' (of_int_f ops (int (sum_deg ^ 2))) indices;
          indices = (if sum_deg \<noteq> 2
                     then add_to_fp ops ''A''
                            (pow_f ops (int_div_f ops (int (dx * dy)) (int sum_deg - 2)) 3) indices
                     else indices);
          indices = add_to_fp ops ''SDD''
                      (add_f ops (if dy \<noteq> 0 then int_div_f ops (int dx) (int dy) else 0)
                                 (if dx \<noteq> 0 then int_div_f ops (int dy) (int dx) else 0)) indices
      in indices)"

fun calc_loop_fp ::
  "float_ops \<Rightarrow> graph \<Rightarrow> edge_list \<Rightarrow> index_vector \<Rightarrow> py_error + index_vector" where
  "calc_loop_fp ops G [] indices = Inr indices"
| "calc_loop_fp ops G ((x, y) # es) indices =
     (case degree G x of
        Inl e \<Rightarrow> Inl e
      | Inr dx \<Rightarrow>
          (case degree G y of
             Inl e \<Rightarrow> Inl e
           | Inr dy \<Rightarrow> calc_loop_fp ops G es (edge_update_fp ops dx dy indices)))"

definition calculate_indices_fp :: "float_ops \<Rightarrow> graph \<Rightarrow> py_error + index_vector" where
  "calculate_indices_fp ops G = calc_loop_fp ops G (edges G) initial_indices"

text \<open>
  \<^verbatim>\<open>round(v, 3)\<close> on a double: the decimal with three places closest to the value the
  double denotes (the even one on a tie), converted back to a double.
\<close>

definition round_fp :: "float_ops \<Rightarrow> real \<Rightarrow> nat \<Rightarrow> real" where
  "round_fp ops v ndigits = of_decimal_f ops (py_round v ndigits)"

fun drugs_loop_fp ::
  "float_ops \<Rightarrow> (string \<rightharpoonup> entry) \<Rightarrow> string list \<Rightarrow> molecule_record list
     \<Rightarrow> py_error + molecule_record list"
where
  "drugs_loop_fp ops data [] results = Inr results"
| "drugs_loop_fp ops data (name # names) results =
     (case data name of
        Some (EdgeList es) \<Rightarrow>
          (case calculate_indices_fp ops (add_edges_from Graph es) of
             Inl e \<Rightarrow> Inl e
           | Inr raw \<Rightarrow>
               drugs_loop_fp ops data names
                 (results @ [Indices name (map (\<lambda>(k, v). (k, round_fp ops v 3)) raw)]))
      | Some (Marker m) \<Rightarrow> drugs_loop_fp ops data names (results @ [Error name (Some m)])
      | None \<Rightarrow> drugs_loop_fp ops data names (results @ [Error name None]))"

definition calculate_and_return_all_drugs_fp ::
  "float_ops \<Rightarrow> string list \<Rightarrow> (string \<rightharpoonup> entry) \<Rightarrow> py_error + molecule_record list" where
  "calculate_and_return_all_drugs_fp ops drug_list data = drugs_loop_fp ops data (sort drug_list) []"

text \<open>What the loop appends for a name, over that arithmetic.\<close>

definition emitted_fp ::
  "float_ops \<Rightarrow> (string \<rightharpoonup> entry) \<Rightarrow> string \<Rightarrow> molecule_record \<Rightarrow> bool" where
  "emitted_fp ops data name r =
     (case data name of
        Some (EdgeList es) \<Rightarrow>
          (\<exists>raw. calculate_indices_fp ops (add_edges_from Graph es) = Inr raw
                 \<and> map fst raw = map fst initial_indices
                 \<and> r = Indices name (map (\<lambda>(k, v). (k, round_fp ops v 3)) raw))
      | Some (Marker m) \<Rightarrow> r = Error name (Some m)
      | None \<Rightarrow> r = Error name None)"

section \<open>The graph a bond list builds\<close>

lemma lists_distinctD: "lists_distinct G \<Longrightarrow> map_of G n = Some l \<Longrightarrow> distinct l"
  unfolding lists_distinct_def by blast

lemma lists_distinctI: "(\<And>n l. map_of G n = Some l \<Longrightarrow> distinct l) \<Longrightarrow> lists_distinct G"
  unfolding lists_distinct_def by blast

lemma map_fst_set_nbr: "map fst (set_nbr u v G) = map fst G"
  by (induction G) (auto simp: set_nbr_def)

lemma map_of_set_nbr:
  "map_of (set_nbr u v G) n =
     (if n = u then map_option (\<lambda>l. if v \<in> set l then l else l @ [v]) (map_of G u)
      else map_of G n)"
  by (induction G) (auto simp: set_nbr_def)

lemma map_fst_add_node:
  "map fst (add_node_if_absent u G) = (if u \<in> set (map fst G) then map fst G else map fst G @ [u])"
  by (simp add: add_node_if_absent_def)

lemma map_of_add_node:
  "map_of (add_node_if_absent u G) n =
     (if n = u \<and> map_of G u = None then Some [] else map_of G n)"
proof (cases "u \<in> fst ` set G")
  case True
  then have "map_of G u \<noteq> None" by (simp add: map_of_eq_None_iff)
  with True show ?thesis by (simp add: add_node_if_absent_def)
next
  case False
  then have "map_of G u = None" by (simp add: map_of_eq_None_iff)
  with False show ?thesis by (auto simp: add_node_if_absent_def map_add_def split: option.splits)
qed

lemma keys_add_node: "fst ` set (add_node_if_absent u G) = insert u (fst ` set G)"
  by (auto simp: add_node_if_absent_def)

lemma distinct_add_node: "distinct (map fst G) \<Longrightarrow> distinct (map fst (add_node_if_absent u G))"
  by (simp add: map_fst_add_node)

lemma nbrs_set_add_node: "nbrs_set (add_node_if_absent u G) n = nbrs_set G n"
  by (simp add: nbrs_set_def map_of_add_node)

lemma lists_distinct_add_node: "lists_distinct G \<Longrightarrow> lists_distinct (add_node_if_absent u G)"
proof (rule lists_distinctI)
  fix n l
  assume G: "lists_distinct G"
  assume a: "map_of (add_node_if_absent u G) n = Some l"
  show "distinct l"
  proof (cases "n = u \<and> map_of G u = None")
    case True
    from a have "l = []" unfolding map_of_add_node if_P [OF True] by simp
    then show ?thesis by simp
  next
    case False
    from a have "map_of G n = Some l" unfolding map_of_add_node if_not_P [OF False] .
    with G show ?thesis by (rule lists_distinctD)
  qed
qed

lemma nbrs_set_set_nbr:
  "u \<in> fst ` set G \<Longrightarrow>
   nbrs_set (set_nbr u v G) n = nbrs_set G n \<union> (if n = u then {v} else {})"
proof -
  assume "u \<in> fst ` set G"
  then obtain l where "map_of G u = Some l"
    by (cases "map_of G u") (simp_all add: map_of_eq_None_iff)
  then show ?thesis
    by (cases "n = u") (simp_all add: nbrs_set_def map_of_set_nbr insert_absorb)
qed

lemma lists_distinct_set_nbr: "lists_distinct G \<Longrightarrow> lists_distinct (set_nbr u v G)"
proof (rule lists_distinctI)
  fix n l
  assume G: "lists_distinct G"
  assume a: "map_of (set_nbr u v G) n = Some l"
  show "distinct l"
  proof (cases "n = u")
    case True
    from a have b: "map_option (\<lambda>l. if v \<in> set l then l else l @ [v]) (map_of G u) = Some l"
      unfolding map_of_set_nbr if_P [OF True] .
    then obtain l0 where l0: "map_of G u = Some l0"
      and l: "l = (if v \<in> set l0 then l0 else l0 @ [v])"
      by (cases "map_of G u") auto
    from G l0 have "distinct l0" by (rule lists_distinctD)
    then show ?thesis unfolding l by simp
  next
    case False
    from a have "map_of G n = Some l" unfolding map_of_set_nbr if_not_P [OF False] .
    with G show ?thesis by (rule lists_distinctD)
  qed
qed

lemma keys_set_nbr: "fst ` set (set_nbr u v G) = fst ` set G"
proof -
  have "set (map fst (set_nbr u v G)) = set (map fst G)"
    by (simp only: map_fst_set_nbr)
  then show ?thesis by simp
qed

lemma keys_add_edge: "fst ` set (add_edge G (u, v)) = insert u (insert v (fst ` set G))"
  by (auto simp: keys_set_nbr keys_add_node)

lemma distinct_add_edge: "distinct (map fst G) \<Longrightarrow> distinct (map fst (add_edge G (u, v)))"
  by (simp add: map_fst_set_nbr distinct_add_node)

lemma lists_distinct_add_edge: "lists_distinct G \<Longrightarrow> lists_distinct (add_edge G (u, v))"
  by (simp add: lists_distinct_set_nbr lists_distinct_add_node)

lemma nbrs_set_add_edge:
  "nbrs_set (add_edge G (u, v)) n =
     nbrs_set G n \<union> (if n = u then {v} else {}) \<union> (if n = v then {u} else {})"
proof -
  let ?G1 = "add_node_if_absent v (add_node_if_absent u G)"
  have u: "u \<in> fst ` set ?G1" and v: "v \<in> fst ` set (set_nbr u v ?G1)"
    by (simp_all add: keys_add_node keys_set_nbr)
  have "nbrs_set (add_edge G (u, v)) n
        = nbrs_set (set_nbr u v ?G1) n \<union> (if n = v then {u} else {})"
    unfolding add_edge.simps by (rule nbrs_set_set_nbr [OF v])
  also have "nbrs_set (set_nbr u v ?G1) n = nbrs_set ?G1 n \<union> (if n = u then {v} else {})"
    by (rule nbrs_set_set_nbr [OF u])
  also have "nbrs_set ?G1 n = nbrs_set G n"
    by (simp only: nbrs_set_add_node)
  finally show ?thesis .
qed

lemma graph_inv_add_edge:
  assumes "graph_inv G es"
  shows "graph_inv (add_edge G (u, v)) (es @ [(u, v)])"
proof -
  from assms have d: "distinct (map fst G)" and k: "fst ` set G = endpoints es"
    and l: "lists_distinct G"
    and n: "\<And>n. nbrs_set G n = {m. (n, m) \<in> set es \<or> (m, n) \<in> set es}"
    by (simp_all add: graph_inv_def)
  have k': "fst ` set (add_edge G (u, v)) = endpoints (es @ [(u, v)])"
    unfolding keys_add_edge k by (auto simp: endpoints_def)
  have n': "nbrs_set (add_edge G (u, v)) n
      = {m. (n, m) \<in> set (es @ [(u, v)]) \<or> (m, n) \<in> set (es @ [(u, v)])}" for n
    unfolding nbrs_set_add_edge n by auto
  show ?thesis
    unfolding graph_inv_def
    using distinct_add_edge [OF d] k' lists_distinct_add_edge [OF l] n' by blast
qed

lemma graph_inv_foldl:
  "graph_inv G es \<Longrightarrow> graph_inv (foldl add_edge G es') (es @ es')"
proof (induction es' arbitrary: G es)
  case Nil
  then show ?case by simp
next
  case (Cons e es')
  obtain u v where e: "e = (u, v)" by (cases e)
  from Cons.prems have "graph_inv (add_edge G e) (es @ [e])"
    unfolding e by (rule graph_inv_add_edge)
  from Cons.IH [OF this] show ?case by simp
qed

lemma graph_inv_build: "graph_inv (add_edges_from Graph es) es"
proof -
  have "graph_inv [] []"
    by (simp add: graph_inv_def endpoints_def lists_distinct_def nbrs_set_def)
  from graph_inv_foldl [OF this, of es] show ?thesis
    by (simp add: add_edges_from_def Graph_def)
qed

lemma graph_inv_map_of:
  assumes "graph_inv G es"
  shows "(map_of G n = None) = (n \<notin> endpoints es)"
  using assms by (simp add: graph_inv_def map_of_eq_None_iff)

lemma degree_of_nbrs:
  assumes "map_of G n = Some l" "distinct l"
  shows "degree G n = Inr (card (nbrs_set G n) + (if n \<in> nbrs_set G n then 1 else 0))"
  using assms by (simp add: degree_def nbrs_set_def distinct_card)

lemma card_split_self:
  assumes "finite S"
  shows "card S + (if n \<in> S then 1 else 0) = card {m \<in> S. m \<noteq> n} + (if n \<in> S then 2 else 0)"
proof (cases "n \<in> S")
  case True
  have "{m \<in> S. m \<noteq> n} = S - {n}" by auto
  with True card_Suc_Diff1 [OF assms True] show ?thesis by simp
next
  case False
  then have "{m \<in> S. m \<noteq> n} = S" by auto
  with False show ?thesis by simp
qed

lemma degree_graph_inv:
  assumes inv: "graph_inv G es"
  shows "degree G n =
     (if n \<in> endpoints es
      then Inr (card {m. m \<noteq> n \<and> ((n, m) \<in> set es \<or> (m, n) \<in> set es)}
                + (if (n, n) \<in> set es then 2 else 0))
      else Inl KeyError)"
proof (cases "map_of G n")
  case None
  with graph_inv_map_of [OF inv, of n] show ?thesis by (simp add: degree_def)
next
  case (Some l)
  with graph_inv_map_of [OF inv, of n] have n: "n \<in> endpoints es" by simp
  from inv have ld: "lists_distinct G" by (simp add: graph_inv_def)
  from ld Some have "distinct l" by (rule lists_distinctD)
  with Some have d: "degree G n = Inr (card (nbrs_set G n) + (if n \<in> nbrs_set G n then 1 else 0))"
    by (rule degree_of_nbrs)
  from Some have fin: "finite (nbrs_set G n)" by (simp add: nbrs_set_def)
  from inv have S: "nbrs_set G n = {m. (n, m) \<in> set es \<or> (m, n) \<in> set es}"
    by (simp add: graph_inv_def)
  have S': "{m \<in> nbrs_set G n. m \<noteq> n} = {m. m \<noteq> n \<and> ((n, m) \<in> set es \<or> (m, n) \<in> set es)}"
    unfolding S by auto
  have mem: "n \<in> nbrs_set G n \<longleftrightarrow> (n, n) \<in> set es"
    unfolding S by simp
  have "degree G n = Inr (card {m \<in> nbrs_set G n. m \<noteq> n} + (if n \<in> nbrs_set G n then 2 else 0))"
    unfolding d by (simp only: card_split_self [OF fin])
  then show ?thesis
    unfolding S' mem using n by simp
qed

lemma edges_seen_adj:
  "(x, y) \<in> set (edges_seen G seen) \<Longrightarrow> \<exists>l. (x, l) \<in> set G \<and> y \<in> set l"
proof (induction G arbitrary: seen)
  case Nil
  then show ?case by simp
next
  case (Cons p G)
  obtain n nbrs where p: "p = (n, nbrs)" by (cases p)
  from Cons.prems have
    "(x = n \<and> y \<in> set nbrs) \<or> (x, y) \<in> set (edges_seen G (n # seen))"
    unfolding p by auto
  then show ?case
  proof
    assume "x = n \<and> y \<in> set nbrs"
    then show ?thesis unfolding p by auto
  next
    assume "(x, y) \<in> set (edges_seen G (n # seen))"
    from Cons.IH [OF this] show ?thesis by auto
  qed
qed

lemma edges_nbrs:
  assumes inv: "graph_inv G es" and e: "(x, y) \<in> set (edges G)"
  shows "y \<in> nbrs_set G x \<and> x \<in> nbrs_set G y"
proof -
  from e obtain l where l: "(x, l) \<in> set G" "y \<in> set l"
    unfolding edges_def by (blast dest: edges_seen_adj)
  from inv have "distinct (map fst G)" by (simp add: graph_inv_def)
  with l(1) have "map_of G x = Some l" by simp
  with l(2) have 1: "y \<in> nbrs_set G x" by (simp add: nbrs_set_def)
  from inv have S: "\<And>n. nbrs_set G n = {m. (n, m) \<in> set es \<or> (m, n) \<in> set es}"
    by (simp add: graph_inv_def)
  from 1 have "x \<in> nbrs_set G y" unfolding S by auto
  with 1 show ?thesis ..
qed

lemma degree_pos:
  assumes "m \<in> nbrs_set G n"
  shows "\<exists>d. degree G n = Inr d \<and> 1 \<le> d"
proof (cases "map_of G n")
  case None
  with assms show ?thesis by (simp add: nbrs_set_def)
next
  case (Some l)
  with assms have "l \<noteq> []" by (auto simp: nbrs_set_def)
  then have "1 \<le> length l" by (cases l) simp_all
  with Some show ?thesis by (simp add: degree_def)
qed

lemma edges_degrees:
  assumes inv: "graph_inv G es" and e: "(x, y) \<in> set (edges G)"
  shows "\<exists>dx dy. degree G x = Inr dx \<and> degree G y = Inr dy \<and> 1 \<le> dx \<and> 1 \<le> dy"
proof -
  from edges_nbrs [OF inv e] have "y \<in> nbrs_set G x" "x \<in> nbrs_set G y" by simp_all
  from degree_pos [OF this(1)] degree_pos [OF this(2)] show ?thesis by blast
qed

lemma map_fst_add_to: "map fst (add_to k v indices) = map fst indices"
  by (induction indices) (auto simp: add_to_def)

lemma map_fst_edge_update: "map fst (edge_update dx dy indices) = map fst indices"
  by (simp add: edge_update_def Let_def map_fst_add_to)

lemma calc_loop_total:
  assumes "\<And>x y. (x, y) \<in> set es \<Longrightarrow> \<exists>dx dy. degree G x = Inr dx \<and> degree G y = Inr dy"
  shows "\<exists>r. calc_loop G es indices = Inr r \<and> map fst r = map fst indices"
  using assms
proof (induction es arbitrary: indices)
  case Nil
  then show ?case by simp
next
  case (Cons e es)
  obtain x y where e: "e = (x, y)" by (cases e)
  from Cons.prems [of x y] obtain dx dy where d: "degree G x = Inr dx" "degree G y = Inr dy"
    unfolding e by auto
  have "\<And>x y. (x, y) \<in> set es \<Longrightarrow> \<exists>dx dy. degree G x = Inr dx \<and> degree G y = Inr dy"
    using Cons.prems by (meson list.set_intros(2))
  then have "\<exists>r. calc_loop G es (edge_update dx dy indices) = Inr r
            \<and> map fst r = map fst (edge_update dx dy indices)"
    by (rule Cons.IH)
  then show ?case unfolding e by (simp add: d map_fst_edge_update)
qed

lemma calculate_indices_total:
  "\<exists>raw. calculate_indices (add_edges_from Graph es) = Inr raw
         \<and> map fst raw = map fst initial_indices"
  unfolding calculate_indices_def
proof (rule calc_loop_total)
  fix x y
  assume "(x, y) \<in> set (edges (add_edges_from Graph es))"
  from edges_degrees [OF graph_inv_build this]
  show "\<exists>dx dy. degree (add_edges_from Graph es) x = Inr dx
                \<and> degree (add_edges_from Graph es) y = Inr dy" by blast
qed

lemmas graph_eval =
  add_edges_from_def Graph_def add_node_if_absent_def set_nbr_def edges_def degree_def

lemma add_node_present: "u \<in> fst ` set G \<Longrightarrow> add_node_if_absent u G = G"
  by (simp add: add_node_if_absent_def)

lemma set_nbr_present:
  assumes "distinct (map fst G)" "map_of G u = Some l" "v \<in> set l"
  shows "set_nbr u v G = G"
  unfolding set_nbr_def
proof (rule map_idI)
  fix p
  assume p: "p \<in> set G"
  obtain n nbrs where pn: "p = (n, nbrs)" by (cases p)
  show "(case p of (n, nbrs) \<Rightarrow> if n = u then (n, if v \<in> set nbrs then nbrs else nbrs @ [v])
                                 else (n, nbrs)) = p"
  proof (cases "n = u")
    case True
    with p pn assms(1) have "map_of G u = Some nbrs" by simp
    with assms(2,3) have "v \<in> set nbrs" by simp
    with True pn show ?thesis by simp
  next
    case False
    with pn show ?thesis by simp
  qed
qed

lemma add_edge_present:
  assumes inv: "graph_inv G es" and e: "(u, v) \<in> set es \<or> (v, u) \<in> set es"
  shows "add_edge G (u, v) = G"
proof -
  from inv have d: "distinct (map fst G)" and k: "fst ` set G = endpoints es"
    and S: "\<And>n. nbrs_set G n = {m. (n, m) \<in> set es \<or> (m, n) \<in> set es}"
    by (simp_all add: graph_inv_def)
  from e have uk: "u \<in> fst ` set G" and vk: "v \<in> fst ` set G"
    unfolding k endpoints_def by force+
  from e have "v \<in> nbrs_set G u" "u \<in> nbrs_set G v" unfolding S by auto
  then obtain lu lv where lu: "map_of G u = Some lu" "v \<in> set lu"
    and lv: "map_of G v = Some lv" "u \<in> set lv"
    by (auto simp: nbrs_set_def split: option.splits)
  show ?thesis
    unfolding add_edge.simps add_node_present [OF uk] add_node_present [OF vk]
      set_nbr_present [OF d lu] set_nbr_present [OF d lv] ..
qed

lemma add_edges_from_append:
  "add_edges_from Graph (es @ es') = foldl add_edge (add_edges_from Graph es) es'"
  by (simp add: add_edges_from_def)

section \<open>The ten sums on small graphs\<close>

lemma sqrt_quarter: "sqrt (1 / 4) = 1 / 2"
proof -
  have "sqrt (1 / 4) = sqrt ((1 / 2)\<^sup>2)" by (simp add: power2_eq_square)
  also have "\<dots> = \<bar>1 / 2\<bar>" by (rule real_sqrt_abs)
  also have "\<dots> = 1 / 2" by simp
  finally show ?thesis .
qed

lemma calculate_indices_single_edge:
  assumes "a \<noteq> b"
  shows "calculate_indices (add_edges_from Graph [(a, b)]) =
       Inr [(''M1'', 2), (''M2'', 1), (''mM2'', 1), (''FG'', 2), (''ISI'', 1 / 2),
            (''H'', 1), (''SC'', sqrt (1 / 2)), (''HM'', 4), (''A'', 0), (''SDD'', 2)]"
proof -
  from assms have g: "add_edges_from Graph [(a, b)] = [(a, [b]), (b, [a])]"
    by (simp add: graph_eval)
  from assms have d: "degree [(a, [b]), (b, [a])] a = Inr 1" "degree [(a, [b]), (b, [a])] b = Inr 1"
    by (simp_all add: degree_def)
  from assms have e: "edges [(a, [b]), (b, [a])] = [(a, b)]" by (simp add: edges_def)
  have u: "edge_update 1 1 initial_indices =
       [(''M1'', 2), (''M2'', 1), (''mM2'', 1), (''FG'', 2), (''ISI'', 1 / 2),
        (''H'', 1), (''SC'', sqrt (1 / 2)), (''HM'', 4), (''A'', 0), (''SDD'', 2)]"
    by (simp add: initial_indices_def edge_update_def add_to_def Let_def)
  show ?thesis
    unfolding g calculate_indices_def e using d u by simp
qed

lemma endpoint_degree_pos:
  assumes "n \<in> endpoints es"
  shows "\<exists>d. degree (add_edges_from Graph es) n = Inr d \<and> 1 \<le> d"
proof -
  let ?G = "add_edges_from Graph es"
  from assms obtain m where "(n, m) \<in> set es \<or> (m, n) \<in> set es"
    unfolding endpoints_def by force
  moreover have "nbrs_set ?G n = {m. (n, m) \<in> set es \<or> (m, n) \<in> set es}"
    using graph_inv_build [of es] by (simp add: graph_inv_def)
  ultimately have "m \<in> nbrs_set ?G n" by simp
  then show ?thesis by (rule degree_pos)
qed

section \<open>The batch loop\<close>

lemma emitted_drug: "emitted data name r \<Longrightarrow> drug r = name"
  by (auto simp: emitted_def split: option.splits entry.splits)

lemma emitted_total: "\<exists>r. emitted data name r"
proof (cases "data name")
  case None
  then show ?thesis by (simp add: emitted_def)
next
  case (Some e)
  show ?thesis
  proof (cases e)
    case (EdgeList es)
    from calculate_indices_total [of es] Some EdgeList show ?thesis
      by (auto simp: emitted_def)
  next
    case (Marker m)
    with Some show ?thesis by (simp add: emitted_def)
  qed
qed

lemma drugs_loop_step:
  assumes "emitted data name r"
  shows "drugs_loop data (name # names) results = drugs_loop data names (results @ [r])"
proof (cases "data name")
  case None
  with assms show ?thesis by (simp add: emitted_def)
next
  case (Some e)
  show ?thesis
  proof (cases e)
    case (EdgeList es)
    with Some assms show ?thesis by (auto simp: emitted_def)
  next
    case (Marker m)
    with Some assms show ?thesis by (simp add: emitted_def)
  qed
qed

lemma drugs_loop_total:
  "\<exists>rs. drugs_loop data names results = Inr (results @ rs) \<and> list_all2 (emitted data) names rs"
proof (induction names arbitrary: results)
  case Nil
  then show ?case by simp
next
  case (Cons name names)
  from emitted_total obtain r where r: "emitted data name r" ..
  from Cons.IH [of "results @ [r]"] obtain rs where
    rs: "drugs_loop data names (results @ [r]) = Inr ((results @ [r]) @ rs)"
      "list_all2 (emitted data) names rs" by blast
  have "drugs_loop data (name # names) results = Inr (results @ (r # rs))"
    unfolding drugs_loop_step [OF r] rs(1) by simp
  moreover from r rs(2) have "list_all2 (emitted data) (name # names) (r # rs)" by simp
  ultimately show ?case by blast
qed

lemma aggregate_total:
  "\<exists>rs. calculate_and_return_all_drugs drug_list data = Inr rs
        \<and> list_all2 (emitted data) (sort drug_list) rs"
  using drugs_loop_total [of data "sort drug_list" "[]"]
  by (simp add: calculate_and_return_all_drugs_def)

lemma emitted_names:
  assumes "list_all2 (emitted data) names rs"
  shows "map drug rs = names"
  using assms by (induction rule: list_all2_induct) (simp_all add: emitted_drug)

lemma emitted_member:
  assumes "list_all2 (emitted data) names rs" "r \<in> set rs"
  shows "emitted data (drug r) r"
  using assms by (induction rule: list_all2_induct) (auto simp: emitted_drug)

lemma aggregate_emitted:
  assumes "calculate_and_return_all_drugs drug_list data = Inr rs"
  shows "list_all2 (emitted data) (sort drug_list) rs"
  using aggregate_total [of drug_list data] assms by auto

lemma emitted_success_iff:
  assumes "emitted data (drug r) r"
  shows "has_indices r \<longleftrightarrow> (\<exists>es. data (drug r) = Some (EdgeList es))"
proof (cases "data (drug r)")
  case None
  with assms have "r = Error (drug r) None" by (simp add: emitted_def)
  then have "\<not> has_indices r" by (metis has_indices.simps(2))
  with None show ?thesis by simp
next
  case (Some x)
  show ?thesis
  proof (cases x)
    case (EdgeList es)
    with Some assms obtain ind where "r = Indices (drug r) ind"
      unfolding emitted_def by auto
    then have "has_indices r" by (metis has_indices.simps(1))
    with Some EdgeList show ?thesis by simp
  next
    case (Marker m)
    with Some assms have "r = Error (drug r) (Some m)" by (simp add: emitted_def)
    then have "\<not> has_indices r" by (metis has_indices.simps(2))
    with Some Marker show ?thesis by simp
  qed
qed

lemma emitted_keys:
  assumes "emitted data name (Indices name' ind)"
  shows "map fst ind = map fst initial_indices"
proof -
  from assms obtain raw where "map fst raw = map fst initial_indices"
    and "ind = map (\<lambda>(k, v). (k, py_round v 3)) raw"
    by (auto simp: emitted_def split: option.splits entry.splits)
  then show ?thesis by (simp add: case_prod_unfold comp_def)
qed

lemma aggregate_example:
  "calculate_and_return_all_drugs [''zanubrutinib'', ''afatinib''] example_data =
     Inr [Error ''afatinib'' (Some [(''error'', ''edge relations not found'')]),
          Indices ''zanubrutinib''
            (map (\<lambda>(k, v). (k, py_round v 3))
               [(''M1'', 2), (''M2'', 1), (''mM2'', 1), (''FG'', 2), (''ISI'', 1 / 2),
                (''H'', 1), (''SC'', sqrt (1 / 2)), (''HM'', 4), (''A'', 0), (''SDD'', 2)])]"
proof -
  have s: "sort [''zanubrutinib'', ''afatinib''] = [''afatinib'', ''zanubrutinib'']"
    by code_simp
  have c: "calculate_indices (add_edges_from Graph [(0, 1)]) =
       Inr [(''M1'', 2), (''M2'', 1), (''mM2'', 1), (''FG'', 2), (''ISI'', 1 / 2),
            (''H'', 1), (''SC'', sqrt (1 / 2)), (''HM'', 4), (''A'', 0), (''SDD'', 2)]"
    by (rule calculate_indices_single_edge) simp
  show ?thesis
    unfolding calculate_and_return_all_drugs_def s
    by (simp add: example_data_def c del: map_eq_Cons_conv list.map)
qed

section \<open>Rounding to three decimals\<close>

lemma round_half_even_tie:
  "round_half_even (of_int k + 1 / 2) = (if even k then k else k + 1)"
proof -
  have "\<lfloor>of_int k + (1 / 2 :: real)\<rfloor> = k" by linarith
  then show ?thesis by (simp add: round_half_even_def Let_def)
qed

lemma round_half_even_close: "\<bar>of_int (round_half_even x) - x\<bar> \<le> 1 / 2"
proof -
  have "of_int \<lfloor>x\<rfloor> \<le> x" "x < of_int \<lfloor>x\<rfloor> + 1" by linarith+
  then show ?thesis by (auto simp: round_half_even_def Let_def)
qed

lemma py_round_tie:
  "py_round ((2 * of_int k + 1) / 2000) 3 = of_int (if even k then k else k + 1) / 1000"
proof -
  have "(2 * of_int k + 1) / 2000 * 10 ^ 3 = (of_int k + 1 / 2 :: real)" by simp
  then show ?thesis unfolding py_round_def by (simp only: round_half_even_tie) simp
qed

lemma py_round_close: "\<bar>py_round v 3 - v\<bar> \<le> 1 / 2000"
proof -
  have "\<bar>of_int (round_half_even (v * 1000)) - v * 1000\<bar> \<le> 1 / 2"
    by (rule round_half_even_close)
  then show ?thesis by (simp add: py_round_def abs_le_iff field_simps)
qed

lemma py_round_example: "py_round (123456 / 100000) 3 = 1235 / 1000"
  by (simp add: py_round_def round_half_even_def Let_def)

lemma py_round_sixteenth: "py_round (1 / 16) 3 = 62 / 1000 \<and> py_round (3 / 16) 3 = 188 / 1000"
  by (simp add: py_round_def round_half_even_def Let_def)

text \<open>
  The third decimal depends on the last bits of the sum: the exact value 31/16 is a tie and
  goes up to 1.938, every value just below it goes down to 1.937.
\<close>

lemma py_round_window:
  assumes "12345 / 10000 < v" "v < 12355 / 10000"
  shows "py_round v 3 = 1235 / 1000"
proof -
  from assms have b: "12345 / 10 < v * 1000" "v * 1000 < 12355 / 10" by simp_all
  then have "\<lfloor>v * 1000\<rfloor> = 1234 \<or> \<lfloor>v * 1000\<rfloor> = 1235" by linarith
  then have "round_half_even (v * 1000) = 1235"
  proof
    assume f: "\<lfloor>v * 1000\<rfloor> = 1234"
    with b show ?thesis by (simp add: round_half_even_def Let_def)
  next
    assume f: "\<lfloor>v * 1000\<rfloor> = 1235"
    with b show ?thesis by (simp add: round_half_even_def Let_def)
  qed
  then show ?thesis by (simp add: py_round_def)
qed

lemma py_round_last_bits:
  "py_round (31 / 16) 3 = 1938 / 1000"
  "19365 / 10000 < v \<Longrightarrow> v < 31 / 16 \<Longrightarrow> py_round v 3 = 1937 / 1000"
proof -
  show "py_round (31 / 16) 3 = 1938 / 1000"
    by (simp add: py_round_def round_half_even_def Let_def)
next
  assume a: "19365 / 10000 < v" "v < 31 / 16"
  then have b: "19365 / 10 < v * 1000" "v * 1000 < 19375 / 10" by simp_all
  then have "\<lfloor>v * 1000\<rfloor> = 1936 \<or> \<lfloor>v * 1000\<rfloor> = 1937" by linarith
  then have "round_half_even (v * 1000) = 1937"
  proof
    assume "\<lfloor>v * 1000\<rfloor> = 1936"
    with b show ?thesis by (simp add: round_half_even_def Let_def)
  next
    assume "\<lfloor>v * 1000\<rfloor> = 1937"
    with b show ?thesis by (simp add: round_half_even_def Let_def)
  qed
  then show "py_round v 3 = 1937 / 1000" by (simp add: py_round_def)
qed

section \<open>The batch loop over the arithmetic of doubles\<close>

lemma map_fst_add_to_fp: "map fst (add_to_fp ops k v indices) = map fst indices"
  by (induction indices) (auto simp: add_to_fp_def)

lemma map_fst_edge_update_fp: "map fst (edge_update_fp ops dx dy indices) = map fst indices"
  by (simp add: edge_update_fp_def Let_def map_fst_add_to_fp)

lemma calc_loop_fp_total:
  assumes "\<And>x y. (x, y) \<in> set es \<Longrightarrow> \<exists>dx dy. degree G x = Inr dx \<and> degree G y = Inr dy"
  shows "\<exists>r. calc_loop_fp ops G es indices = Inr r \<and> map fst r = map fst indices"
  using assms
proof (induction es arbitrary: indices)
  case Nil
  then show ?case by simp
next
  case (Cons e es)
  obtain x y where e: "e = (x, y)" by (cases e)
  from Cons.prems [of x y] obtain dx dy where d: "degree G x = Inr dx" "degree G y = Inr dy"
    unfolding e by auto
  have "\<And>x y. (x, y) \<in> set es \<Longrightarrow> \<exists>dx dy. degree G x = Inr dx \<and> degree G y = Inr dy"
    using Cons.prems by (meson list.set_intros(2))
  then have "\<exists>r. calc_loop_fp ops G es (edge_update_fp ops dx dy indices) = Inr r
            \<and> map fst r = map fst (edge_update_fp ops dx dy indices)"
    by (rule Cons.IH)
  then show ?case unfolding e by (simp add: d map_fst_edge_update_fp)
qed

lemma calculate_indices_fp_total:
  "\<exists>raw. calculate_indices_fp ops (add_edges_from Graph es) = Inr raw
         \<and> map fst raw = map fst initial_indices"
  unfolding calculate_indices_fp_def
proof (rule calc_loop_fp_total)
  fix x y
  assume "(x, y) \<in> set (edges (add_edges_from Graph es))"
  from edges_degrees [OF graph_inv_build this]
  show "\<exists>dx dy. degree (add_edges_from Graph es) x = Inr dx
                \<and> degree (add_edges_from Graph es) y = Inr dy" by blast
qed

lemma emitted_fp_drug: "emitted_fp ops data name r \<Longrightarrow> drug r = name"
  by (auto simp: emitted_fp_def split: option.splits entry.splits)

lemma emitted_fp_total: "\<exists>r. emitted_fp ops data name r"
proof (cases "data name")
  case None
  then show ?thesis by (simp add: emitted_fp_def)
next
  case (Some e)
  show ?thesis
  proof (cases e)
    case (EdgeList es)
    from calculate_indices_fp_total [of ops es] Some EdgeList show ?thesis
      by (auto simp: emitted_fp_def)
  next
    case (Marker m)
    with Some show ?thesis by (simp add: emitted_fp_def)
  qed
qed

lemma drugs_loop_fp_step:
  assumes "emitted_fp ops data name r"
  shows "drugs_loop_fp ops data (name # names) results
           = drugs_loop_fp ops data names (results @ [r])"
proof (cases "data name")
  case None
  with assms show ?thesis by (simp add: emitted_fp_def)
next
  case (Some e)
  show ?thesis
  proof (cases e)
    case (EdgeList es)
    with Some assms show ?thesis by (auto simp: emitted_fp_def)
  next
    case (Marker m)
    with Some assms show ?thesis by (simp add: emitted_fp_def)
  qed
qed

lemma drugs_loop_fp_total:
  "\<exists>rs. drugs_loop_fp ops data names results = Inr (results @ rs)
        \<and> list_all2 (emitted_fp ops data) names rs"
proof (induction names arbitrary: results)
  case Nil
  then show ?case by simp
next
  case (Cons name names)
  from emitted_fp_total obtain r where r: "emitted_fp ops data name r" ..
  from Cons.IH [of "results @ [r]"] obtain rs where
    rs: "drugs_loop_fp ops data names (results @ [r]) = Inr ((results @ [r]) @ rs)"
      "list_all2 (emitted_fp ops data) names rs" by blast
  have "drugs_loop_fp ops data (name # names) results = Inr (results @ (r # rs))"
    unfolding drugs_loop_fp_step [OF r] rs(1) by simp
  moreover from r rs(2) have "list_all2 (emitted_fp ops data) (name # names) (r # rs)" by simp
  ultimately show ?case by blast
qed

lemma aggregate_fp_total:
  "\<exists>rs. calculate_and_return_all_drugs_fp ops drug_list data = Inr rs
        \<and> list_all2 (emitted_fp ops data) (sort drug_list) rs"
  using drugs_loop_fp_total [of ops data "sort drug_list" "[]"]
  by (simp add: calculate_and_return_all_drugs_fp_def)

lemma emitted_fp_member:
  assumes "list_all2 (emitted_fp ops data) names rs" "r \<in> set rs"
  shows "emitted_fp ops data (drug r) r"
  using assms by (induction rule: list_all2_induct) (auto simp: emitted_fp_drug)

lemma aggregate_fp_emitted:
  assumes "calculate_and_return_all_drugs_fp ops drug_list data = Inr rs"
  shows "list_all2 (emitted_fp ops data) (sort drug_list) rs"
  using aggregate_fp_total [of ops drug_list data] assms by auto

lemma exact_ops_sel:
  "of_int_f exact_ops = real_of_int"
  "add_f exact_ops = (+)"
  "div_f exact_ops = (/)"
  "int_div_f exact_ops = (\<lambda>a b. real_of_int a / real_of_int b)"
  "sqrt_f exact_ops = sqrt"
  "pow_f exact_ops = (^)"
  "of_decimal_f exact_ops = (\<lambda>x. x)"
  by (simp_all add: exact_ops_def)

lemma add_to_exact: "add_to_fp exact_ops k v indices = add_to k v indices"
  unfolding add_to_fp_def add_to_def exact_ops_sel by (rule refl)

lemma edge_update_exact: "edge_update_fp exact_ops dx dy indices = edge_update dx dy indices"
  unfolding edge_update_fp_def edge_update_def add_to_exact exact_ops_sel
  by (simp only: of_int_of_nat_eq)

lemma calc_loop_exact: "calc_loop_fp exact_ops G es indices = calc_loop G es indices"
proof (induction es arbitrary: indices)
  case Nil
  then show ?case by simp
next
  case (Cons e es)
  obtain x y where e: "e = (x, y)" by (cases e)
  show ?case unfolding e
    by (simp add: Cons.IH edge_update_exact split: sum.splits)
qed

lemma calculate_indices_exact: "calculate_indices_fp exact_ops G = calculate_indices G"
  by (simp add: calculate_indices_fp_def calculate_indices_def calc_loop_exact)

lemma round_exact: "round_fp exact_ops v n = py_round v n"
  by (simp add: round_fp_def exact_ops_sel)

lemma drugs_loop_exact: "drugs_loop_fp exact_ops data names results = drugs_loop data names results"
proof (induction names arbitrary: results)
  case Nil
  then show ?case by simp
next
  case (Cons name names)
  show ?case
    by (simp add: Cons.IH calculate_indices_exact round_exact
          split: option.splits entry.splits sum.splits)
qed

lemma aggregate_exact:
  "calculate_and_return_all_drugs_fp exact_ops drug_list data
     = calculate_and_return_all_drugs drug_list data"
  by (simp add: calculate_and_return_all_drugs_fp_def calculate_and_return_all_drugs_def
        drugs_loop_exact)

section \<open>The table\<close>

lemma dataframe_rows:
  "save_results_to_dataframe results =
     concat (map (\<lambda>r. case r of Indices name ind \<Rightarrow> [(name, ind)] | Error name err \<Rightarrow> []) results)"
proof (induction results)
  case Nil
  then show ?case by (simp add: save_results_to_dataframe_def List.map_filter_simps)
next
  case (Cons r rs)
  then show ?case
    by (cases r) (simp_all add: save_results_to_dataframe_def List.map_filter_simps)
qed

lemma dataframe_labels:
  "map fst (save_results_to_dataframe results) = map drug (filter has_indices results)"
proof (induction results)
  case Nil
  then show ?case by (simp add: dataframe_rows)
next
  case (Cons r rs)
  then show ?case by (cases r) (simp_all add: dataframe_rows)
qed

lemma dataframe_row_member:
  "(name, ind) \<in> set (save_results_to_dataframe results) \<longleftrightarrow> Indices name ind \<in> set results"
proof (induction results)
  case Nil
  then show ?case by (simp add: dataframe_rows)
next
  case (Cons r rs)
  then show ?case by (cases r) (auto simp: dataframe_rows)
qed

section \<open>The claims\<close>

text \<open>
  C1 (as amended). \<^verbatim>\<open>nx.Graph\<close> is a simple graph: a pair that is added again, in
  either orientation, changes nothing. The degree of a node of the built graph is the
  number of distinct other nodes it shares a pair with, plus 2 if the list has a self-loop
  on it, and a node the list does not mention is not in the graph. So the list with the
  same pair \<open>(u, v)\<close>, \<open>u \<noteq> v\<close>, twice gives \<open>u\<close> and \<open>v\<close> degree 1 each, and
  the indices are those of the single edge.
\<close>

theorem repeated_edge_collapses:
  "degree (add_edges_from Graph es) n =
     (if n \<in> endpoints es
      then Inr (card {m. m \<noteq> n \<and> ((n, m) \<in> set es \<or> (m, n) \<in> set es)}
                + (if (n, n) \<in> set es then 2 else 0))
      else Inl KeyError)
   \<and> add_edges_from Graph (es1 @ [(u, v)] @ es2 @ [(u, v)]) = add_edges_from Graph (es1 @ [(u, v)] @ es2)
   \<and> add_edges_from Graph (es1 @ [(u, v)] @ es2 @ [(v, u)]) = add_edges_from Graph (es1 @ [(u, v)] @ es2)
   \<and> (u \<noteq> v \<longrightarrow>
        degree (add_edges_from Graph [(u, v), (u, v)]) u = Inr 1
      \<and> degree (add_edges_from Graph [(u, v), (u, v)]) v = Inr 1
      \<and> calculate_indices (add_edges_from Graph [(u, v), (u, v)])
          = calculate_indices (add_edges_from Graph [(u, v)]))"
proof (intro conjI impI)
  show "degree (add_edges_from Graph es) n =
     (if n \<in> endpoints es
      then Inr (card {m. m \<noteq> n \<and> ((n, m) \<in> set es \<or> (m, n) \<in> set es)}
                + (if (n, n) \<in> set es then 2 else 0))
      else Inl KeyError)"
    by (rule degree_graph_inv [OF graph_inv_build])
next
  let ?es = "es1 @ [(u, v)] @ es2"
  have inv: "graph_inv (add_edges_from Graph ?es) ?es" by (rule graph_inv_build)
  have "add_edge (add_edges_from Graph ?es) (u, v) = add_edges_from Graph ?es"
    by (rule add_edge_present [OF inv]) simp
  then show "add_edges_from Graph (es1 @ [(u, v)] @ es2 @ [(u, v)]) = add_edges_from Graph ?es"
    by (simp add: add_edges_from_def)
  have "add_edge (add_edges_from Graph ?es) (v, u) = add_edges_from Graph ?es"
    by (rule add_edge_present [OF inv]) simp
  then show "add_edges_from Graph (es1 @ [(u, v)] @ es2 @ [(v, u)]) = add_edges_from Graph ?es"
    by (simp add: add_edges_from_def)
next
  assume "u \<noteq> v"
  then have g: "add_edges_from Graph [(u, v), (u, v)] = [(u, [v]), (v, [u])]"
    by (simp add: graph_eval)
  from \<open>u \<noteq> v\<close> have g1: "add_edges_from Graph [(u, v)] = [(u, [v]), (v, [u])]"
    by (simp add: graph_eval)
  from \<open>u \<noteq> v\<close> show "degree (add_edges_from Graph [(u, v), (u, v)]) u = Inr 1"
    unfolding g by (simp add: degree_def)
  from \<open>u \<noteq> v\<close> show "degree (add_edges_from Graph [(u, v), (u, v)]) v = Inr 1"
    unfolding g by (simp add: degree_def)
  show "calculate_indices (add_edges_from Graph [(u, v), (u, v)])
          = calculate_indices (add_edges_from Graph [(u, v)])"
    unfolding g g1 ..
qed

theorem repeated_edge_collapses_witness:
  "(0::int) \<noteq> 1
   \<and> degree (add_edges_from Graph [(0, 1), (0, 1)]) 0 = Inr 1
   \<and> degree (add_edges_from Graph [(0, 1), (0, 1)]) 1 = Inr 1
   \<and> calculate_indices (add_edges_from Graph [(0, 1), (0, 1)])
       = calculate_indices (add_edges_from Graph [(0, 1)])"
proof -
  have h: "(0::int) \<noteq> 1" by simp
  from repeated_edge_collapses [where u = 0 and v = 1, THEN conjunct2, THEN conjunct2,
      THEN conjunct2, rule_format, OF h] h
  show ?thesis by (intro conjI) simp_all
qed

text \<open>
  C1 as stated fails: for the edge list \<open>[(0, 1), (0, 1)]\<close> both nodes have two endpoint
  occurrences, and degree 1 in the graph.
\<close>

theorem duplicate_edge_degree_counterexample:
  "degree (add_edges_from Graph [(0, 1), (0, 1)]) 0 = Inr 1
   \<and> degree (add_edges_from Graph [(0, 1), (0, 1)]) 1 = Inr 1
   \<and> endpoint_occurrences [(0, 1), (0, 1)] 0 = 2
   \<and> endpoint_occurrences [(0, 1), (0, 1)] 1 = 2
   \<and> degree (add_edges_from Graph [(0, 1), (0, 1)]) 0
       \<noteq> Inr (endpoint_occurrences [(0, 1), (0, 1)] 0)"
  by (simp add: graph_eval endpoint_occurrences_def)

text \<open>
  C2 (as amended). For a single edge between two distinct nodes the result is M1 = 2,
  M2 = 1, mM2 = 1, FG = 2, ISI = 1/2, H = 1, SC = sqrt(1/2), HM = 4, A = 0 (the only term is
  skipped) and SDD = 2. ISI is \<open>(dx * dy) / (dx + dy) = 1 / 2\<close>, not 1.
\<close>

theorem single_edge_indices:
  assumes "a \<noteq> b"
  shows "calculate_indices (add_edges_from Graph [(a, b)]) =
       Inr [(''M1'', 2), (''M2'', 1), (''mM2'', 1), (''FG'', 2), (''ISI'', 1 / 2),
            (''H'', 1), (''SC'', sqrt (1 / 2)), (''HM'', 4), (''A'', 0), (''SDD'', 2)]"
  using assms by (rule calculate_indices_single_edge)

theorem single_edge_indices_witness:
  "(2::int) \<noteq> 3
   \<and> calculate_indices (add_edges_from Graph [(2, 3)]) =
       Inr [(''M1'', 2), (''M2'', 1), (''mM2'', 1), (''FG'', 2), (''ISI'', 1 / 2),
            (''H'', 1), (''SC'', sqrt (1 / 2)), (''HM'', 4), (''A'', 0), (''SDD'', 2)]"
proof -
  have h: "(2::int) \<noteq> 3" by simp
  from h single_edge_indices [OF h] show ?thesis by (intro conjI)
qed

text \<open>
  C2 as stated fails: on the edge list \<open>[(0, 1)]\<close> the value under ISI is 1/2, so the
  result is not the vector of the claim.
\<close>

theorem single_edge_isi_counterexample:
  "map_of (projr (calculate_indices (add_edges_from Graph [(0, 1)]))) ''ISI'' = Some (1 / 2)
   \<and> calculate_indices (add_edges_from Graph [(0, 1)]) \<noteq>
       Inr [(''M1'', 2), (''M2'', 1), (''mM2'', 1), (''FG'', 2), (''ISI'', 1),
            (''H'', 1), (''SC'', sqrt (1 / 2)), (''HM'', 4), (''A'', 0), (''SDD'', 2)]"
proof -
  have g: "add_edges_from Graph [(0, 1)] = [(0, [1]), (1, [0])]"
    by (simp add: graph_eval)
  have d: "degree [(0, [1]), (1, [0])] 0 = Inr 1" "degree [(0, [1]), (1, [0])] 1 = Inr 1"
    by (simp_all add: degree_def)
  have e: "edges [(0, [1]), (1, [0])] = [(0, 1)]" by (simp add: edges_def)
  have u: "edge_update 1 1 initial_indices =
       [(''M1'', 2), (''M2'', 1), (''mM2'', 1), (''FG'', 2), (''ISI'', 1 / 2),
        (''H'', 1), (''SC'', sqrt (1 / 2)), (''HM'', 4), (''A'', 0), (''SDD'', 2)]"
    by (simp add: initial_indices_def edge_update_def add_to_def Let_def)
  show ?thesis
    unfolding g calculate_indices_def e using d u by simp
qed

text \<open>
  C3. The records come out in ascending lexicographic order of the names, whatever the
  order of the input list: two lists with the same names (each as often) give the same
  report, and the names of the report are the sorted input.
\<close>

theorem batch_order_normalised:
  assumes "mset drug_list' = mset drug_list"
  shows "calculate_and_return_all_drugs drug_list' data
           = calculate_and_return_all_drugs drug_list data
       \<and> (\<exists>results. calculate_and_return_all_drugs drug_list data = Inr results
             \<and> map drug results = sort drug_list
             \<and> sorted (map drug results))"
proof -
  have "mset (sort drug_list) = mset drug_list'" using assms by simp
  then have "sort drug_list' = sort drug_list"
    by (rule properties_for_sort) simp
  then have eq: "calculate_and_return_all_drugs drug_list' data
           = calculate_and_return_all_drugs drug_list data"
    by (simp add: calculate_and_return_all_drugs_def)
  from aggregate_total [of drug_list data] obtain results where
    r: "calculate_and_return_all_drugs drug_list data = Inr results"
    and e: "list_all2 (emitted data) (sort drug_list) results" by blast
  have names: "map drug results = sort drug_list" by (rule emitted_names [OF e])
  then have "sorted (map drug results)" by simp
  with eq r names show ?thesis by blast
qed

theorem batch_order_normalised_witness:
  "mset [''zanubrutinib'', ''afatinib''] = mset [''afatinib'', ''zanubrutinib'']
   \<and> calculate_and_return_all_drugs [''zanubrutinib'', ''afatinib''] example_data
       = calculate_and_return_all_drugs [''afatinib'', ''zanubrutinib''] example_data
   \<and> (\<exists>results.
         calculate_and_return_all_drugs [''zanubrutinib'', ''afatinib''] example_data = Inr results
         \<and> map drug results = [''afatinib'', ''zanubrutinib''])"
proof -
  have h: "mset [''afatinib'', ''zanubrutinib''] = mset [''zanubrutinib'', ''afatinib'']"
    by simp
  have s: "sort [''zanubrutinib'', ''afatinib''] = [''afatinib'', ''zanubrutinib'']"
    by code_simp
  from batch_order_normalised [OF h, of example_data] h show ?thesis
    unfolding s by auto
qed

text \<open>
  C4. The batch never fails: it returns one record per name of the input list, in sorted
  order; a name that is missing from the document gets the failure record with \<^verbatim>\<open>None\<close>,
  a name with an error marker the failure record with that very marker, and a name with an
  edge list a success record, whatever the other names are.
\<close>

theorem batch_never_raises:
  "\<exists>results. calculate_and_return_all_drugs drug_list data = Inr results
     \<and> length results = length drug_list
     \<and> map drug results = sort drug_list
     \<and> (\<forall>i < length results.
          (data (drug (results ! i)) = None \<longrightarrow> results ! i = Error (drug (results ! i)) None)
        \<and> (\<forall>m. data (drug (results ! i)) = Some (Marker m)
                \<longrightarrow> results ! i = Error (drug (results ! i)) (Some m))
        \<and> (\<forall>es. data (drug (results ! i)) = Some (EdgeList es) \<longrightarrow> has_indices (results ! i)))"
proof -
  from aggregate_total [of drug_list data] obtain results where
    r: "calculate_and_return_all_drugs drug_list data = Inr results"
    and e: "list_all2 (emitted data) (sort drug_list) results" by blast
  from e have len: "length results = length drug_list"
    by (simp add: list_all2_lengthD [symmetric])
  have names: "map drug results = sort drug_list" by (rule emitted_names [OF e])
  have each: "(data (drug (results ! i)) = None \<longrightarrow> results ! i = Error (drug (results ! i)) None)
        \<and> (\<forall>m. data (drug (results ! i)) = Some (Marker m)
                \<longrightarrow> results ! i = Error (drug (results ! i)) (Some m))
        \<and> (\<forall>es. data (drug (results ! i)) = Some (EdgeList es) \<longrightarrow> has_indices (results ! i))"
    if "i < length results" for i
  proof -
    from that have "results ! i \<in> set results" by simp
    from emitted_member [OF e this] have em: "emitted data (drug (results ! i)) (results ! i)" .
    show ?thesis
    proof (cases "data (drug (results ! i))")
      case None
      with em show ?thesis by (simp add: emitted_def)
    next
      case (Some x)
      show ?thesis
      proof (cases x)
        case (EdgeList es)
        with Some em obtain ind where "results ! i = Indices (drug (results ! i)) ind"
          unfolding emitted_def by auto
        then have "has_indices (results ! i)" by (metis has_indices.simps(1))
        with Some EdgeList show ?thesis by simp
      next
        case (Marker m)
        with Some em show ?thesis by (simp add: emitted_def)
      qed
    qed
  qed
  from r len names each show ?thesis by blast
qed

theorem batch_never_raises_witness:
  "\<exists>results.
     calculate_and_return_all_drugs [''zanubrutinib'', ''busulfan'', ''afatinib''] example_data
       = Inr results
     \<and> results ! 0 = Error ''afatinib'' (Some [(''error'', ''edge relations not found'')])
     \<and> results ! 1 = Error ''busulfan'' None
     \<and> has_indices (results ! 2) \<and> drug (results ! 2) = ''zanubrutinib''"
proof -
  let ?names = "[''zanubrutinib'', ''busulfan'', ''afatinib'']"
  have s: "sort ?names = [''afatinib'', ''busulfan'', ''zanubrutinib'']" by code_simp
  from batch_never_raises [of ?names example_data] obtain results where
    r: "calculate_and_return_all_drugs ?names example_data = Inr results"
    and len: "length results = 3"
    and names: "map drug results = sort ?names"
    and each: "\<And>i. i < length results \<Longrightarrow>
        (example_data (drug (results ! i)) = None \<longrightarrow> results ! i = Error (drug (results ! i)) None)
        \<and> (\<forall>m. example_data (drug (results ! i)) = Some (Marker m)
                \<longrightarrow> results ! i = Error (drug (results ! i)) (Some m))
        \<and> (\<forall>es. example_data (drug (results ! i)) = Some (EdgeList es) \<longrightarrow> has_indices (results ! i))"
    by auto
  from len obtain a b c where abc: "results = [a, b, c]"
    by (cases results; cases "tl results"; cases "tl (tl results)") auto
  from names have d: "drug (results ! 0) = ''afatinib''" "drug (results ! 1) = ''busulfan''"
    "drug (results ! 2) = ''zanubrutinib''"
    unfolding s abc by simp_all
  have 0: "results ! 0 = Error ''afatinib'' (Some [(''error'', ''edge relations not found'')])"
    using each [of 0] len d by (simp add: example_data_def)
  have 1: "results ! 1 = Error ''busulfan'' None"
    using each [of 1] len d by (simp add: example_data_def)
  have 2: "has_indices (results ! 2)"
    using each [of 2] len d by (simp add: example_data_def)
  from r 0 1 2 d show ?thesis by blast
qed

text \<open>
  C5. For every graph with zero edges (isolated nodes or none), \<open>calculate_indices\<close>
  returns, without an error, the dict of all ten keys, each with the value 0.
\<close>

theorem zero_edges_all_zero:
  assumes "edges G = []"
  shows "calculate_indices G =
     Inr [(''M1'', 0), (''M2'', 0), (''mM2'', 0), (''FG'', 0), (''ISI'', 0),
          (''H'', 0), (''SC'', 0), (''HM'', 0), (''A'', 0), (''SDD'', 0)]"
  using assms by (simp add: calculate_indices_def initial_indices_def)

theorem zero_edges_all_zero_witness:
  "edges [(5, [])] = []
   \<and> calculate_indices [(5, [])] =
     Inr [(''M1'', 0), (''M2'', 0), (''mM2'', 0), (''FG'', 0), (''ISI'', 0),
          (''H'', 0), (''SC'', 0), (''HM'', 0), (''A'', 0), (''SDD'', 0)]
   \<and> edges (add_edges_from Graph []) = []
   \<and> calculate_indices (add_edges_from Graph []) =
     Inr [(''M1'', 0), (''M2'', 0), (''mM2'', 0), (''FG'', 0), (''ISI'', 0),
          (''H'', 0), (''SC'', 0), (''HM'', 0), (''A'', 0), (''SDD'', 0)]"
proof -
  have h1: "edges [(5, [])] = []" by (simp add: edges_def)
  have h2: "edges (add_edges_from Graph []) = []" by (simp add: graph_eval)
  from h1 zero_edges_all_zero [OF h1] h2 zero_edges_all_zero [OF h2]
  show ?thesis by (intro conjI)
qed

text \<open>
  C6. For the triangle on three distinct nodes every degree is 2 and every edge has
  \<open>sum_deg = 4\<close>: M1 = 12, M2 = 12, HM = 48 and A = 24 (three terms of 8); the other six
  sums are listed too.
\<close>

theorem triangle_indices:
  assumes "a \<noteq> b" "b \<noteq> c" "a \<noteq> c"
  shows "calculate_indices (add_edges_from Graph [(a, b), (b, c), (c, a)]) =
       Inr [(''M1'', 12), (''M2'', 12), (''mM2'', 3 / 4), (''FG'', 24), (''ISI'', 3),
            (''H'', 3 / 2), (''SC'', 3 / 2), (''HM'', 48), (''A'', 24), (''SDD'', 6)]"
proof -
  let ?G = "[(a, [b, c]), (b, [a, c]), (c, [b, a])]"
  from assms have g: "add_edges_from Graph [(a, b), (b, c), (c, a)] = ?G"
    by (simp add: graph_eval)
  from assms have d: "degree ?G a = Inr 2" "degree ?G b = Inr 2" "degree ?G c = Inr 2"
    by (simp_all add: degree_def)
  from assms have e: "edges ?G = [(a, b), (a, c), (b, c)]" by (auto simp: edges_def)
  have u1: "edge_update 2 2 initial_indices =
       [(''M1'', 4), (''M2'', 4), (''mM2'', 1 / 4), (''FG'', 8), (''ISI'', 1),
        (''H'', 1 / 2), (''SC'', 1 / 2), (''HM'', 16), (''A'', 8), (''SDD'', 2)]"
    by (simp add: initial_indices_def edge_update_def add_to_def Let_def sqrt_quarter)
  have u2: "edge_update 2 2 [(''M1'', 4), (''M2'', 4), (''mM2'', 1 / 4), (''FG'', 8), (''ISI'', 1),
        (''H'', 1 / 2), (''SC'', 1 / 2), (''HM'', 16), (''A'', 8), (''SDD'', 2)] =
       [(''M1'', 8), (''M2'', 8), (''mM2'', 1 / 2), (''FG'', 16), (''ISI'', 2),
        (''H'', 1), (''SC'', 1), (''HM'', 32), (''A'', 16), (''SDD'', 4)]"
    by (simp add: edge_update_def add_to_def Let_def sqrt_quarter)
  have u3: "edge_update 2 2 [(''M1'', 8), (''M2'', 8), (''mM2'', 1 / 2), (''FG'', 16), (''ISI'', 2),
        (''H'', 1), (''SC'', 1), (''HM'', 32), (''A'', 16), (''SDD'', 4)] =
       [(''M1'', 12), (''M2'', 12), (''mM2'', 3 / 4), (''FG'', 24), (''ISI'', 3),
            (''H'', 3 / 2), (''SC'', 3 / 2), (''HM'', 48), (''A'', 24), (''SDD'', 6)]"
    by (simp add: edge_update_def add_to_def Let_def sqrt_quarter)
  show ?thesis
    unfolding g calculate_indices_def e using d u1 u2 u3 by simp
qed

theorem triangle_indices_witness:
  "(0::int) \<noteq> 1 \<and> (1::int) \<noteq> 2 \<and> (0::int) \<noteq> 2
   \<and> calculate_indices (add_edges_from Graph [(0, 1), (1, 2), (2, 0)]) =
       Inr [(''M1'', 12), (''M2'', 12), (''mM2'', 3 / 4), (''FG'', 24), (''ISI'', 3),
            (''H'', 3 / 2), (''SC'', 3 / 2), (''HM'', 48), (''A'', 24), (''SDD'', 6)]"
proof -
  have h: "(0::int) \<noteq> 1" "(1::int) \<noteq> 2" "(0::int) \<noteq> 2" by simp_all
  from h triangle_indices [OF h] show ?thesis by (intro conjI)
qed

text \<open>
  C7. In the graph built from the single self-loop \<open>(x, x)\<close> the degree of \<open>x\<close> is 2,
  the edge is visited once, and it contributes to every index with \<open>dx = dy = 2\<close> and
  \<open>sum_deg = 4\<close>.
\<close>

theorem self_loop_counts_twice:
  "degree (add_edges_from Graph [(x, x)]) x = Inr 2
   \<and> edges (add_edges_from Graph [(x, x)]) = [(x, x)]
   \<and> calculate_indices (add_edges_from Graph [(x, x)]) =
       Inr [(''M1'', 4), (''M2'', 4), (''mM2'', 1 / 4), (''FG'', 8), (''ISI'', 1),
            (''H'', 1 / 2), (''SC'', 1 / 2), (''HM'', 16), (''A'', 8), (''SDD'', 2)]"
proof -
  have g: "add_edges_from Graph [(x, x)] = [(x, [x])]" by (simp add: graph_eval)
  have d: "degree [(x, [x])] x = Inr 2" by (simp add: degree_def)
  have e: "edges [(x, [x])] = [(x, x)]" by (simp add: edges_def)
  have u: "edge_update 2 2 initial_indices =
       [(''M1'', 4), (''M2'', 4), (''mM2'', 1 / 4), (''FG'', 8), (''ISI'', 1),
        (''H'', 1 / 2), (''SC'', 1 / 2), (''HM'', 16), (''A'', 8), (''SDD'', 2)]"
    by (simp add: initial_indices_def edge_update_def add_to_def Let_def sqrt_quarter)
  show ?thesis
    unfolding g calculate_indices_def e using d u by simp
qed

text \<open>
  C8. Whatever the arithmetic of the doubles, the success record of a name with an edge list
  holds, under the ten keys, the values computed for its graph, each rounded to three
  decimals: \<open>py_round v 3\<close>, converted back to a double. That rounding yields a multiple
  of 0.001 at distance at most 0.0005 from the value, sends every value between 1.2345 and
  1.2355 (so the double written 1.23456) to 1.235, and sends a tie \<open>(2k + 1) / 2000\<close> to
  the neighbour with the even last digit, as 0.0625 to 0.062 and 0.1875 to 0.188.
\<close>

theorem success_record_rounded:
  assumes "calculate_and_return_all_drugs_fp ops drug_list data = Inr results"
    and "r \<in> set results"
    and "data (drug r) = Some (EdgeList es)"
  shows "(\<exists>raw. calculate_indices_fp ops (add_edges_from Graph es) = Inr raw
            \<and> map fst raw =
                [''M1'', ''M2'', ''mM2'', ''FG'', ''ISI'', ''H'', ''SC'', ''HM'', ''A'', ''SDD'']
            \<and> r = Indices (drug r) (map (\<lambda>(k, v). (k, of_decimal_f ops (py_round v 3))) raw))
       \<and> (\<forall>v. \<exists>k. py_round v 3 = of_int k / 1000 \<and> \<bar>py_round v 3 - v\<bar> \<le> 1 / 2000)
       \<and> (\<forall>v. 12345 / 10000 < v \<and> v < 12355 / 10000 \<longrightarrow> py_round v 3 = 1235 / 1000)
       \<and> (\<forall>k. py_round ((2 * of_int k + 1) / 2000) 3
                = of_int (if even k then k else k + 1) / 1000)
       \<and> py_round (1 / 16) 3 = 62 / 1000 \<and> py_round (3 / 16) 3 = 188 / 1000"
proof -
  from aggregate_fp_emitted [OF assms(1)] assms(2) have "emitted_fp ops data (drug r) r"
    by (rule emitted_fp_member)
  with assms(3) have 1: "\<exists>raw. calculate_indices_fp ops (add_edges_from Graph es) = Inr raw
            \<and> map fst raw =
                [''M1'', ''M2'', ''mM2'', ''FG'', ''ISI'', ''H'', ''SC'', ''HM'', ''A'', ''SDD'']
            \<and> r = Indices (drug r) (map (\<lambda>(k, v). (k, of_decimal_f ops (py_round v 3))) raw)"
    by (simp add: emitted_fp_def initial_indices_def round_fp_def)
  have 2: "\<exists>k. py_round v 3 = of_int k / 1000 \<and> \<bar>py_round v 3 - v\<bar> \<le> 1 / 2000" for v
    using py_round_close [of v] by (auto simp: py_round_def)
  have 3: "12345 / 10000 < v \<and> v < 12355 / 10000 \<longrightarrow> py_round v 3 = 1235 / 1000" for v
    using py_round_window [of v] by blast
  from 1 2 3 py_round_tie py_round_sixteenth show ?thesis by blast
qed

theorem success_record_rounded_witness:
  "\<exists>results r.
     calculate_and_return_all_drugs_fp exact_ops [''zanubrutinib'', ''afatinib''] example_data
       = Inr results
     \<and> r \<in> set results
     \<and> example_data (drug r) = Some (EdgeList [(0, 1)])
     \<and> (\<exists>raw. calculate_indices_fp exact_ops (add_edges_from Graph [(0, 1)]) = Inr raw
            \<and> r = Indices ''zanubrutinib''
                    (map (\<lambda>(k, v). (k, of_decimal_f exact_ops (py_round v 3))) raw))
     \<and> (12345 / 10000 < (123456 / 100000 :: real) \<and> (123456 / 100000 :: real) < 12355 / 10000)
     \<and> py_round (123456 / 100000) 3 = 1235 / 1000"
proof -
  define r where "r = Indices ''zanubrutinib''
            (map (\<lambda>(k, v). (k, py_round v 3))
               [(''M1'', 2), (''M2'', 1), (''mM2'', 1), (''FG'', 2), (''ISI'', 1 / 2),
                (''H'', 1), (''SC'', sqrt (1 / 2)), (''HM'', 4), (''A'', 0), (''SDD'', 2)])"
  define results where
    "results = [Error ''afatinib'' (Some [(''error'', ''edge relations not found'')]), r]"
  have h1: "calculate_and_return_all_drugs_fp exact_ops [''zanubrutinib'', ''afatinib''] example_data
              = Inr results"
    unfolding aggregate_exact results_def r_def by (rule aggregate_example)
  have h2: "r \<in> set results" by (simp add: results_def)
  have dr: "drug r = ''zanubrutinib''" by (simp add: r_def)
  have h3: "example_data (drug r) = Some (EdgeList [(0, 1)])"
    unfolding dr by (simp add: example_data_def)
  have h4: "12345 / 10000 < (123456 / 100000 :: real) \<and> (123456 / 100000 :: real) < 12355 / 10000"
    by simp
  note t = success_record_rounded [OF h1 h2 h3]
  from t have "\<exists>raw. calculate_indices_fp exact_ops (add_edges_from Graph [(0, 1)]) = Inr raw
            \<and> r = Indices (drug r)
                    (map (\<lambda>(k, v). (k, of_decimal_f exact_ops (py_round v 3))) raw)"
    by blast
  then have a: "\<exists>raw. calculate_indices_fp exact_ops (add_edges_from Graph [(0, 1)]) = Inr raw
            \<and> r = Indices ''zanubrutinib''
                    (map (\<lambda>(k, v). (k, of_decimal_f exact_ops (py_round v 3))) raw)"
    unfolding dr .
  from t h4 have b: "py_round (123456 / 100000) 3 = 1235 / 1000" by blast
  from h1 h2 h3 a h4 b show ?thesis by blast
qed

text \<open>
  C9. The table of a batch report has exactly one row per success record, in the order of
  the report, labelled with the name of the molecule and with the ten index identifiers as
  its columns; a name with a failure record labels no row.
\<close>

theorem table_has_the_success_rows:
  assumes "calculate_and_return_all_drugs drug_list data = Inr results"
  shows "length (save_results_to_dataframe results) = length (filter has_indices results)
       \<and> map fst (save_results_to_dataframe results) = map drug (filter has_indices results)
       \<and> (\<forall>row \<in> set (save_results_to_dataframe results).
             Indices (fst row) (snd row) \<in> set results
           \<and> map fst (snd row) =
               [''M1'', ''M2'', ''mM2'', ''FG'', ''ISI'', ''H'', ''SC'', ''HM'', ''A'', ''SDD''])
       \<and> (\<forall>r \<in> set results.
             \<not> has_indices r \<longrightarrow> drug r \<notin> fst ` set (save_results_to_dataframe results))"
proof (intro conjI ballI impI)
  let ?table = "save_results_to_dataframe results"
  have e: "list_all2 (emitted data) (sort drug_list) results"
    by (rule aggregate_emitted [OF assms])
  show labels: "map fst ?table = map drug (filter has_indices results)"
    by (rule dataframe_labels)
  from arg_cong [OF labels, of length] show "length ?table = length (filter has_indices results)"
    by simp
  {
    fix row
    assume "row \<in> set ?table"
    then have m: "Indices (fst row) (snd row) \<in> set results"
      by (simp add: dataframe_row_member [symmetric])
    then show "Indices (fst row) (snd row) \<in> set results" .
    from emitted_member [OF e m] have "map fst (snd row) = map fst initial_indices"
      by (rule emitted_keys)
    then show "map fst (snd row) =
               [''M1'', ''M2'', ''mM2'', ''FG'', ''ISI'', ''H'', ''SC'', ''HM'', ''A'', ''SDD'']"
      by (simp add: initial_indices_def)
  }
  {
    fix r
    assume r: "r \<in> set results" and f: "\<not> has_indices r"
    show "drug r \<notin> fst ` set ?table"
    proof
      assume "drug r \<in> fst ` set ?table"
      then obtain ind where "(drug r, ind) \<in> set ?table" by force
      then have m: "Indices (drug r) ind \<in> set results" by (simp add: dataframe_row_member)
      from emitted_member [OF e m] have "emitted data (drug (Indices (drug r) ind)) (Indices (drug r) ind)" .
      from emitted_success_iff [OF this] have "\<exists>es. data (drug r) = Some (EdgeList es)" by simp
      moreover from emitted_member [OF e r] have "emitted data (drug r) r" .
      from emitted_success_iff [OF this] f have "\<not> (\<exists>es. data (drug r) = Some (EdgeList es))" by simp
      ultimately show False by blast
    qed
  }
qed

theorem table_has_the_success_rows_witness:
  "\<exists>results.
     calculate_and_return_all_drugs [''zanubrutinib'', ''afatinib''] example_data = Inr results
     \<and> length results = 2
     \<and> map fst (save_results_to_dataframe results) = [''zanubrutinib'']
     \<and> ''afatinib'' \<notin> fst ` set (save_results_to_dataframe results)"
proof -
  define ind where "ind = map (\<lambda>(k, v). (k, py_round v 3))
               [(''M1'', 2), (''M2'', 1), (''mM2'', 1), (''FG'', 2), (''ISI'', 1 / 2),
                (''H'', 1), (''SC'', sqrt (1 / 2)), (''HM'', 4), (''A'', 0), (''SDD'', 2)]"
  let ?e = "Error ''afatinib'' (Some [(''error'', ''edge relations not found'')])"
  let ?r = "Indices ''zanubrutinib'' ind"
  have h: "calculate_and_return_all_drugs [''zanubrutinib'', ''afatinib''] example_data
              = Inr [?e, ?r]"
    unfolding ind_def by (rule aggregate_example)
  note t = table_has_the_success_rows [OF h]
  from t have "map fst (save_results_to_dataframe [?e, ?r]) = map drug (filter has_indices [?e, ?r])"
    by blast
  then have labels: "map fst (save_results_to_dataframe [?e, ?r]) = [''zanubrutinib'']"
    by simp
  from t have "\<forall>r \<in> set [?e, ?r].
             \<not> has_indices r \<longrightarrow> drug r \<notin> fst ` set (save_results_to_dataframe [?e, ?r])"
    by blast
  then have out: "''afatinib'' \<notin> fst ` set (save_results_to_dataframe [?e, ?r])"
    by simp
  from h labels out show ?thesis by (intro exI [of _ "[?e, ?r]"] conjI) simp_all
qed

text \<open>
  C10. In a graph built from an edge list every endpoint has degree at least 1. So for
  every edge that \<open>calculate_indices\<close> visits both degrees are found, \<open>dx\<close>, \<open>dy\<close>,
  \<open>dx * dy\<close> and \<open>dx + dy\<close> are not zero (the guards of mM2, ISI, H, SC and SDD hold and
  their \<open>0\<close> branches are not taken), \<open>dx + dy\<close> is at least 2, the divisor
  \<open>dx + dy - 2\<close> of A is at least 1 whenever \<open>dx + dy\<close> is not 2, and the function returns.
\<close>

theorem no_division_by_zero:
  "(n \<in> endpoints es \<longrightarrow> (\<exists>d. degree (add_edges_from Graph es) n = Inr d \<and> 1 \<le> d))
   \<and> (\<forall>(x, y) \<in> set (edges (add_edges_from Graph es)).
        \<exists>dx dy. degree (add_edges_from Graph es) x = Inr dx
              \<and> degree (add_edges_from Graph es) y = Inr dy
              \<and> dx \<noteq> 0 \<and> dy \<noteq> 0 \<and> dx * dy \<noteq> 0 \<and> dx + dy \<noteq> 0 \<and> 2 \<le> dx + dy
              \<and> (dx + dy \<noteq> 2 \<longrightarrow> 1 \<le> int (dx + dy) - 2))
   \<and> (\<exists>raw. calculate_indices (add_edges_from Graph es) = Inr raw)"
proof (intro conjI impI)
  assume "n \<in> endpoints es"
  then show "\<exists>d. degree (add_edges_from Graph es) n = Inr d \<and> 1 \<le> d"
    by (rule endpoint_degree_pos)
next
  let ?G = "add_edges_from Graph es"
  have "\<exists>dx dy. degree ?G x = Inr dx \<and> degree ?G y = Inr dy
              \<and> dx \<noteq> 0 \<and> dy \<noteq> 0 \<and> dx * dy \<noteq> 0 \<and> dx + dy \<noteq> 0 \<and> 2 \<le> dx + dy
              \<and> (dx + dy \<noteq> 2 \<longrightarrow> 1 \<le> int (dx + dy) - 2)"
    if "(x, y) \<in> set (edges ?G)" for x y
  proof -
    from edges_degrees [OF graph_inv_build that] obtain dx dy where
      d: "degree ?G x = Inr dx" "degree ?G y = Inr dy" and p: "1 \<le> dx" "1 \<le> dy" by blast
    from p have "dx \<noteq> 0 \<and> dy \<noteq> 0 \<and> dx * dy \<noteq> 0 \<and> dx + dy \<noteq> 0 \<and> 2 \<le> dx + dy
              \<and> (dx + dy \<noteq> 2 \<longrightarrow> 1 \<le> int (dx + dy) - 2)"
      by auto
    with d show ?thesis by blast
  qed
  then show "\<forall>(x, y) \<in> set (edges ?G).
        \<exists>dx dy. degree ?G x = Inr dx \<and> degree ?G y = Inr dy
              \<and> dx \<noteq> 0 \<and> dy \<noteq> 0 \<and> dx * dy \<noteq> 0 \<and> dx + dy \<noteq> 0 \<and> 2 \<le> dx + dy
              \<and> (dx + dy \<noteq> 2 \<longrightarrow> 1 \<le> int (dx + dy) - 2)"
    by blast
next
  from calculate_indices_total [of es]
  show "\<exists>raw. calculate_indices (add_edges_from Graph es) = Inr raw" by blast
qed

theorem no_division_by_zero_witness:
  "1 \<in> endpoints [(0, 1), (1, 2)]
   \<and> (0, 1) \<in> set (edges (add_edges_from Graph [(0, 1), (1, 2)]))
   \<and> (\<exists>d. degree (add_edges_from Graph [(0, 1), (1, 2)]) 1 = Inr d \<and> 1 \<le> d)
   \<and> (\<exists>dx dy. degree (add_edges_from Graph [(0, 1), (1, 2)]) 0 = Inr dx
            \<and> degree (add_edges_from Graph [(0, 1), (1, 2)]) 1 = Inr dy
            \<and> dx * dy \<noteq> 0 \<and> dx + dy \<noteq> 2 \<and> 1 \<le> int (dx + dy) - 2)"
proof -
  let ?es = "[(0, 1), (1, 2)] :: edge_list"
  let ?G = "add_edges_from Graph ?es"
  have h1: "1 \<in> endpoints ?es" by (simp add: endpoints_def)
  have g: "?G = [(0, [1]), (1, [0, 2]), (2, [1])]" by (simp add: graph_eval)
  have h2: "(0, 1) \<in> set (edges ?G)" unfolding g by (simp add: edges_def)
  note t = no_division_by_zero [of 1 ?es]
  from t h1 have a: "\<exists>d. degree ?G 1 = Inr d \<and> 1 \<le> d" by blast
  from t h2 obtain dx dy where d: "degree ?G 0 = Inr dx" "degree ?G 1 = Inr dy"
    and nz: "dx * dy \<noteq> 0" and imp: "dx + dy \<noteq> 2 \<longrightarrow> 1 \<le> int (dx + dy) - 2"
    by blast
  from d have "dx = 1" "dy = 2" unfolding g by (simp_all add: degree_def)
  then have h3: "dx + dy \<noteq> 2" by simp
  with imp have "1 \<le> int (dx + dy) - 2" by blast
  with h1 h2 a d nz h3 show ?thesis by blast
qed

end
